theory Spec2Isabelle
  imports Complex_Main
begin

section \<open>Numbers and arrays\<close>

text \<open>
  The notebook computes on numpy arrays of double-precision numbers. The embedding keeps
  the one special value the program itself writes and tests, not-a-number, and takes every
  other number as an exact real: rounding, overflow and the infinities are outside
  the model. Arithmetic propagates \<open>NaN\<close>, and every comparison with \<open>NaN\<close> is false, as
  in numpy.
\<close>

datatype flt = NaN | Fin real

fun fadd :: "flt \<Rightarrow> flt \<Rightarrow> flt" where
  "fadd (Fin a) (Fin b) = Fin (a + b)"
| "fadd _ _ = NaN"

fun fsub :: "flt \<Rightarrow> flt \<Rightarrow> flt" where
  "fsub (Fin a) (Fin b) = Fin (a - b)"
| "fsub _ _ = NaN"

fun fmul :: "flt \<Rightarrow> flt \<Rightarrow> flt" where
  "fmul (Fin a) (Fin b) = Fin (a * b)"
| "fmul _ _ = NaN"

fun fneg :: "flt \<Rightarrow> flt" where
  "fneg (Fin a) = Fin (- a)"
| "fneg NaN = NaN"

fun fabs :: "flt \<Rightarrow> flt" where
  "fabs (Fin a) = Fin \<bar>a\<bar>"
| "fabs NaN = NaN"

text \<open>\<open>np.sqrt\<close> of a negative number is \<open>nan\<close> (with a warning, not an exception).\<close>

fun fsqrt :: "flt \<Rightarrow> flt" where
  "fsqrt (Fin a) = (if a < 0 then NaN else Fin (sqrt a))"
| "fsqrt NaN = NaN"

text \<open>The comparison \<open>a > b\<close>.\<close>

fun fgt :: "flt \<Rightarrow> flt \<Rightarrow> bool" where
  "fgt (Fin a) (Fin b) = (a > b)"
| "fgt _ _ = False"

text \<open>The binary step of numpy's \<open>max\<close> reduction, which propagates \<open>nan\<close>.\<close>

fun fmax :: "flt \<Rightarrow> flt \<Rightarrow> flt" where
  "fmax (Fin a) (Fin b) = Fin (max a b)"
| "fmax _ _ = NaN"

datatype error = ValueError

text \<open>Elementwise operations on arrays of one shape, and a scalar broadcast over an array.\<close>

definition vadd :: "flt list \<Rightarrow> flt list \<Rightarrow> flt list" where
  "vadd xs ys = map2 fadd xs ys"

definition vsub :: "flt list \<Rightarrow> flt list \<Rightarrow> flt list" where
  "vsub xs ys = map2 fsub xs ys"

definition smul :: "flt \<Rightarrow> flt list \<Rightarrow> flt list" where
  "smul c xs = map (fmul c) xs"

text \<open>\<open>X.max()\<close>: numpy raises \<open>ValueError\<close> on an array with no element.\<close>

fun np_max :: "flt list \<Rightarrow> error + flt" where
  "np_max [] = Inl ValueError"
| "np_max (x # xs) = Inr (fold (\<lambda>y m. fmax m y) xs x)"

text \<open>
  \<open>np.polyval(p, x)\<close> is Horner's rule from an array of zeros, the coefficient of the
  highest degree first: \<open>y = zeros_like(x); for pv in p: y = y * x + pv\<close>.
\<close>

definition polyval1 :: "flt list \<Rightarrow> flt \<Rightarrow> flt" where
  "polyval1 p x = fold (\<lambda>pv y. fadd (fmul y x) pv) p (Fin 0)"

definition polyval :: "flt list \<Rightarrow> flt list \<Rightarrow> flt list" where
  "polyval p xs = map (polyval1 p) xs"

section \<open>The slow-variable tendency\<close>

text \<open>The component of \<open>X\<close> at an index taken modulo the length of \<open>X\<close>.\<close>

definition circ :: "flt list \<Rightarrow> int \<Rightarrow> flt" where
  "circ X i = X ! nat (i mod int (length X))"

text \<open>
  Modelled from the spec: \<open>L96_eq1_xdot\<close> is imported from the module \<open>L96_model\<close>,
  which the notebooks use and do not contain. The specification gives the tendency of the
  one time-scale equation, without its coupling term, as
  \<open>dX_k/dt = -X_{k-1} (X_{k-2} - X_{k+1}) - X_k + F\<close>, every index taken modulo \<open>K\<close>.
\<close>

definition L96_eq1_xdot :: "flt list \<Rightarrow> flt \<Rightarrow> flt list" where
  "L96_eq1_xdot X F =
     map (\<lambda>k. fadd (fsub (fmul (fneg (circ X (int k - 1)))
                               (fsub (circ X (int k - 2)) (circ X (int k + 1))))
                         (circ X (int k)))
                   F)
         [0..<length X]"

section \<open>The reduced model \<open>GCM\<close>\<close>

text \<open>
  \<^verbatim>\<open>
  def GCM(X0, F, dt, nt, param=[0]):
      time, hist, X = dt * np.arange(nt), np.zeros((nt, len(X0))) * np.nan, X0.copy()

      for n in range(nt):
          X = X + dt * (L96_eq1_xdot(X, F) - np.polyval(param, X))
          if np.abs(X).max() > 1e3:
              break
          hist[n], time[n] = X, dt * (n + 1)
      return hist, time
  \<close>
\<close>

text \<open>The right-hand side of the assignment to \<open>X\<close> in the loop body.\<close>

definition euler_step :: "flt \<Rightarrow> flt \<Rightarrow> flt list \<Rightarrow> flt list \<Rightarrow> flt list" where
  "euler_step F dt param X =
     vadd X (smul dt (vsub (L96_eq1_xdot X F) (polyval param X)))"

text \<open>The test \<open>np.abs(X).max() > 1e3\<close>.\<close>

definition diverged :: "flt list \<Rightarrow> error + bool" where
  "diverged X =
     (case np_max (map fabs X) of
        Inl e \<Rightarrow> Inl e
      | Inr m \<Rightarrow> Inr (fgt m (Fin 1000)))"

text \<open>
  The loop over \<open>range(nt)\<close>, on the remaining indices, with the three local variables
  it updates. \<open>break\<close> leaves with \<open>hist\<close> and \<open>time\<close> as they are.
\<close>

fun GCM_loop ::
  "flt \<Rightarrow> flt \<Rightarrow> flt list \<Rightarrow> nat list \<Rightarrow> flt list list \<Rightarrow> flt list \<Rightarrow> flt list
     \<Rightarrow> error + (flt list list \<times> flt list)" where
  "GCM_loop F dt param [] hist time X = Inr (hist, time)"
| "GCM_loop F dt param (n # ns) hist time X =
     (let X' = euler_step F dt param X in
      case diverged X' of
        Inl e \<Rightarrow> Inl e
      | Inr True \<Rightarrow> Inr (hist, time)
      | Inr False \<Rightarrow>
          GCM_loop F dt param ns (hist[n := X']) (time[n := fmul dt (Fin (real (n + 1)))]) X')"

text \<open>
  \<open>np.arange(nt)\<close> and \<open>range(nt)\<close> are empty for a negative \<open>nt\<close>, but
  \<open>np.zeros((nt, len(X0)))\<close> raises \<open>ValueError\<close> for a negative dimension.
\<close>

definition GCM ::
  "flt list \<Rightarrow> flt \<Rightarrow> flt \<Rightarrow> int \<Rightarrow> flt list \<Rightarrow> error + (flt list list \<times> flt list)" where
  "GCM X0 F dt nt param =
     (if nt < 0 then Inl ValueError
      else GCM_loop F dt param [0..<nat nt]
             (replicate (nat nt) (replicate (length X0) NaN))
             (map (\<lambda>n. fmul dt (Fin (real n))) [0..<nat nt])
             X0)"

section \<open>Vocabulary for the trajectory\<close>

text \<open>The state after \<open>n\<close> executions of the assignment to \<open>X\<close>, started at \<open>X0\<close>.\<close>

definition X_after :: "flt \<Rightarrow> flt \<Rightarrow> flt list \<Rightarrow> flt list \<Rightarrow> nat \<Rightarrow> flt list" where
  "X_after F dt param X0 n = (euler_step F dt param ^^ n) X0"

text \<open>
  The number of iterations of the loop of \<open>GCM\<close> that reach the assignment
  \<open>hist[n], time[n] = X, dt * (n + 1)\<close>: the loop counts on until the index list is used
  up, the guard trips or the guard raises.
\<close>

fun recorded :: "flt \<Rightarrow> flt \<Rightarrow> flt list \<Rightarrow> nat list \<Rightarrow> flt list \<Rightarrow> nat" where
  "recorded F dt param [] X = 0"
| "recorded F dt param (n # ns) X =
     (let X' = euler_step F dt param X in
      case diverged X' of
        Inl e \<Rightarrow> 0
      | Inr True \<Rightarrow> 0
      | Inr False \<Rightarrow> Suc (recorded F dt param ns X'))"

definition GCM_steps :: "flt list \<Rightarrow> flt \<Rightarrow> flt \<Rightarrow> int \<Rightarrow> flt list \<Rightarrow> nat" where
  "GCM_steps X0 F dt nt param = recorded F dt param [0..<nat nt] X0"

text \<open>The rows of a history before the first row that holds a \<open>NaN\<close>.\<close>

definition valid_prefix :: "flt list list \<Rightarrow> flt list list" where
  "valid_prefix hist = takeWhile (\<lambda>row. NaN \<notin> set row) hist"

section \<open>The stochastic variant \<open>GCMs\<close>\<close>

text \<open>
  \<^verbatim>\<open>
  def GCMs(X0, F, dt, nt, param=[0], stoch=1.0, phi=0.984):
      time, hist, X = dt * np.arange(nt), np.zeros((nt, len(X0))) * np.nan, X0.copy()
      ek = np.zeros(X.size)

      for n in range(nt):
          # Red noise
          ek = phi * ek + stoch * np.sqrt((1 - phi) * (1 + phi)) * np.random.randn(X.size)
          X = X + dt * (L96_eq1_xdot(X, F) - np.polyval(param, X) + stoch * ek)
          if np.abs(X).max() > 1e3:
              break
          hist[n], time[n] = X, dt * (n + 1)
      return hist, time
  \<close>
  The generator behind \<open>np.random\<close> is global state. Its state is modelled by the sequence
  of standard normal deviates it has still to give; \<open>randn(k)\<close> takes the first \<open>k\<close> of
  them and leaves the rest.
\<close>

type_synonym rng = "nat \<Rightarrow> real"

definition randn :: "nat \<Rightarrow> rng \<Rightarrow> flt list \<times> rng" where
  "randn k g = (map (\<lambda>i. Fin (g i)) [0..<k], \<lambda>i. g (i + k))"

definition red_noise :: "flt \<Rightarrow> flt \<Rightarrow> flt list \<Rightarrow> flt list \<Rightarrow> flt list" where
  "red_noise phi stoch ek z =
     vadd (smul phi ek)
          (smul (fmul stoch (fsqrt (fmul (fsub (Fin 1) phi) (fadd (Fin 1) phi)))) z)"

definition stoch_step ::
  "flt \<Rightarrow> flt \<Rightarrow> flt list \<Rightarrow> flt \<Rightarrow> flt list \<Rightarrow> flt list \<Rightarrow> flt list" where
  "stoch_step F dt param stoch ek X =
     vadd X (smul dt (vadd (vsub (L96_eq1_xdot X F) (polyval param X)) (smul stoch ek)))"

fun GCMs_loop ::
  "flt \<Rightarrow> flt \<Rightarrow> flt list \<Rightarrow> flt \<Rightarrow> flt \<Rightarrow> nat list \<Rightarrow> flt list list \<Rightarrow> flt list
     \<Rightarrow> flt list \<Rightarrow> flt list \<Rightarrow> rng \<Rightarrow> (error + (flt list list \<times> flt list)) \<times> rng" where
  "GCMs_loop F dt param stoch phi [] hist time X ek g = (Inr (hist, time), g)"
| "GCMs_loop F dt param stoch phi (n # ns) hist time X ek g =
     (let (z, g') = randn (length X) g;
          ek' = red_noise phi stoch ek z;
          X' = stoch_step F dt param stoch ek' X in
      case diverged X' of
        Inl e \<Rightarrow> (Inl e, g')
      | Inr True \<Rightarrow> (Inr (hist, time), g')
      | Inr False \<Rightarrow>
          GCMs_loop F dt param stoch phi ns
            (hist[n := X']) (time[n := fmul dt (Fin (real (n + 1)))]) X' ek' g')"

definition GCMs ::
  "flt list \<Rightarrow> flt \<Rightarrow> flt \<Rightarrow> int \<Rightarrow> flt list \<Rightarrow> flt \<Rightarrow> flt \<Rightarrow> rng
     \<Rightarrow> (error + (flt list list \<times> flt list)) \<times> rng" where
  "GCMs X0 F dt nt param stoch phi g =
     (if nt < 0 then (Inl ValueError, g)
      else GCMs_loop F dt param stoch phi [0..<nat nt]
             (replicate (nat nt) (replicate (length X0) NaN))
             (map (\<lambda>n. fmul dt (Fin (real n))) [0..<nat nt])
             X0 (replicate (length X0) (Fin 0)) g)"

section \<open>The reduced step of the specification\<close>

text \<open>
  The specification describes one stepping skeleton into which the coupling term is
  injected: \<open>reduced_step(X, F, couplingTerm)\<close> with a supplied constant in the place of
  the coupling sum, and a run that advances the state by \<open>dt\<close>, records it, and stops at
  the divergence guard. These two definitions follow the specification's words; they are
  compared with \<open>GCM\<close> below.
\<close>

definition reduced_step :: "flt \<Rightarrow> flt \<Rightarrow> flt \<Rightarrow> flt list \<Rightarrow> flt list" where
  "reduced_step F dt coupling X =
     vadd X (smul dt (map (\<lambda>d. fsub d coupling) (L96_eq1_xdot X F)))"

fun spec_run_loop ::
  "(flt list \<Rightarrow> flt list) \<Rightarrow> flt \<Rightarrow> nat list \<Rightarrow> flt list list \<Rightarrow> flt list \<Rightarrow> flt list
     \<Rightarrow> error + (flt list list \<times> flt list)" where
  "spec_run_loop step dt [] hist time X = Inr (hist, time)"
| "spec_run_loop step dt (n # ns) hist time X =
     (let X' = step X in
      case diverged X' of
        Inl e \<Rightarrow> Inl e
      | Inr True \<Rightarrow> Inr (hist, time)
      | Inr False \<Rightarrow>
          spec_run_loop step dt ns (hist[n := X']) (time[n := fmul dt (Fin (real (n + 1)))]) X')"

definition spec_run ::
  "(flt list \<Rightarrow> flt list) \<Rightarrow> flt list \<Rightarrow> flt \<Rightarrow> int
     \<Rightarrow> error + (flt list list \<times> flt list)" where
  "spec_run step X0 dt nt =
     (if nt < 0 then Inl ValueError
      else spec_run_loop step dt [0..<nat nt]
             (replicate (nat nt) (replicate (length X0) NaN))
             (map (\<lambda>n. fmul dt (Fin (real n))) [0..<nat nt])
             X0)"

section \<open>The arrays as objects in a store\<close>

text \<open>
  numpy arrays are mutable objects, and \<open>hist[n] = X\<close> and \<open>time[n] = ...\<close> write into
  them. To see which objects a call writes, the arrays live in a store: an address is an
  index into the list of all objects made so far, and a new object takes the next
  address. \<open>X0.copy()\<close> and every arithmetic expression make a new array; assigning an
  array to a row of \<open>hist\<close> copies its numbers.
\<close>

datatype obj = Vec "flt list" | Mat "flt list list"

type_synonym store = "obj list"

definition alloc :: "obj \<Rightarrow> store \<Rightarrow> nat \<times> store" where
  "alloc v h = (length h, h @ [v])"

definition vec_at :: "store \<Rightarrow> nat \<Rightarrow> flt list" where
  "vec_at h a = (case h ! a of Vec v \<Rightarrow> v | Mat m \<Rightarrow> [])"

definition mat_at :: "store \<Rightarrow> nat \<Rightarrow> flt list list" where
  "mat_at h a = (case h ! a of Mat m \<Rightarrow> m | Vec v \<Rightarrow> [])"

definition set_row :: "store \<Rightarrow> nat \<Rightarrow> nat \<Rightarrow> flt list \<Rightarrow> store" where
  "set_row h a n row = h[a := Mat ((mat_at h a)[n := row])]"

definition set_item :: "store \<Rightarrow> nat \<Rightarrow> nat \<Rightarrow> flt \<Rightarrow> store" where
  "set_item h a n v = h[a := Vec ((vec_at h a)[n := v])]"

text \<open>
  \<open>GCM\<close> on the store: \<open>X0\<close>, \<open>hist\<close>, \<open>time\<close> and \<open>X\<close> are addresses. The result is
  the pair of addresses returned, or the exception, together with the store the call
  leaves.
\<close>

fun GCM_store_loop ::
  "flt \<Rightarrow> flt \<Rightarrow> flt list \<Rightarrow> nat list \<Rightarrow> nat \<Rightarrow> nat \<Rightarrow> nat \<Rightarrow> store
     \<Rightarrow> (error + (nat \<times> nat)) \<times> store" where
  "GCM_store_loop F dt param [] hist time X h = (Inr (hist, time), h)"
| "GCM_store_loop F dt param (n # ns) hist time X h =
     (let (X', h1) = alloc (Vec (euler_step F dt param (vec_at h X))) h in
      case diverged (vec_at h1 X') of
        Inl e \<Rightarrow> (Inl e, h1)
      | Inr True \<Rightarrow> (Inr (hist, time), h1)
      | Inr False \<Rightarrow>
          GCM_store_loop F dt param ns hist time X'
            (set_item (set_row h1 hist n (vec_at h1 X')) time n (fmul dt (Fin (real (n + 1))))))"

definition GCM_store ::
  "nat \<Rightarrow> flt \<Rightarrow> flt \<Rightarrow> int \<Rightarrow> flt list \<Rightarrow> store \<Rightarrow> (error + (nat \<times> nat)) \<times> store" where
  "GCM_store X0 F dt nt param h =
     (let (time, h1) = alloc (Vec (map (\<lambda>n. fmul dt (Fin (real n))) [0..<nat nt])) h in
      if nt < 0 then (Inl ValueError, h1)
      else
        let (hist, h2) = alloc (Mat (replicate (nat nt) (replicate (length (vec_at h1 X0)) NaN))) h1;
            (X, h3) = alloc (Vec (vec_at h2 X0)) h2
        in GCM_store_loop F dt param [0..<nat nt] hist time X h3)"

text \<open>\<open>GCMs\<close> on the store, with the state of the global generator beside it.\<close>

fun GCMs_store_loop ::
  "flt \<Rightarrow> flt \<Rightarrow> flt list \<Rightarrow> flt \<Rightarrow> flt \<Rightarrow> nat list \<Rightarrow> nat \<Rightarrow> nat \<Rightarrow> nat \<Rightarrow> nat
     \<Rightarrow> store \<Rightarrow> rng \<Rightarrow> (error + (nat \<times> nat)) \<times> store \<times> rng" where
  "GCMs_store_loop F dt param stoch phi [] hist time X ek h g = (Inr (hist, time), h, g)"
| "GCMs_store_loop F dt param stoch phi (n # ns) hist time X ek h g =
     (let (z, g') = randn (length (vec_at h X)) g;
          (ek', h1) = alloc (Vec (red_noise phi stoch (vec_at h ek) z)) h;
          (X', h2) = alloc (Vec (stoch_step F dt param stoch (vec_at h1 ek') (vec_at h1 X))) h1 in
      case diverged (vec_at h2 X') of
        Inl e \<Rightarrow> (Inl e, h2, g')
      | Inr True \<Rightarrow> (Inr (hist, time), h2, g')
      | Inr False \<Rightarrow>
          GCMs_store_loop F dt param stoch phi ns hist time X' ek'
            (set_item (set_row h2 hist n (vec_at h2 X')) time n (fmul dt (Fin (real (n + 1)))))
            g')"

definition GCMs_store ::
  "nat \<Rightarrow> flt \<Rightarrow> flt \<Rightarrow> int \<Rightarrow> flt list \<Rightarrow> flt \<Rightarrow> flt \<Rightarrow> store \<Rightarrow> rng
     \<Rightarrow> (error + (nat \<times> nat)) \<times> store \<times> rng" where
  "GCMs_store X0 F dt nt param stoch phi h g =
     (let (time, h1) = alloc (Vec (map (\<lambda>n. fmul dt (Fin (real n))) [0..<nat nt])) h in
      if nt < 0 then (Inl ValueError, h1, g)
      else
        let (hist, h2) = alloc (Mat (replicate (nat nt) (replicate (length (vec_at h1 X0)) NaN))) h1;
            (X, h3) = alloc (Vec (vec_at h2 X0)) h2;
            (ek, h4) = alloc (Vec (replicate (length (vec_at h3 X)) (Fin 0))) h3
        in GCMs_store_loop F dt param stoch phi [0..<nat nt] hist time X ek h4 g)"

text \<open>
  What a call on the store returned, read out of the store it left: the contents of the
  two arrays, or the exception.
\<close>

fun fetch :: "store \<Rightarrow> error + (nat \<times> nat) \<Rightarrow> error + (flt list list \<times> flt list)" where
  "fetch h (Inl e) = Inl e"
| "fetch h (Inr (hist, time)) = Inr (mat_at h hist, vec_at h time)"

section \<open>Properties of the loop\<close>

lemma length_vadd: "length (vadd xs ys) = min (length xs) (length ys)"
  by (simp add: vadd_def)

lemma length_euler_step: "length (euler_step F dt param X) = length X"
  by (simp add: euler_step_def vadd_def vsub_def smul_def polyval_def L96_eq1_xdot_def)

lemma euler_step_nonempty: "X \<noteq> [] \<Longrightarrow> euler_step F dt param X \<noteq> []"
  using length_euler_step [of F dt param X] by (metis length_0_conv)

lemma length_X_after: "length (X_after F dt param X0 n) = length X0"
  by (induction n) (simp_all add: X_after_def length_euler_step)

lemma diverged_nonempty: "X \<noteq> [] \<Longrightarrow> \<exists>b. diverged X = Inr b"
  by (cases X) (simp_all add: diverged_def)

lemma diverged_empty: "diverged [] = Inl ValueError"
  by (simp add: diverged_def)

lemma diverged_Inl: "diverged X = Inl e \<Longrightarrow> X = []"
  by (cases X) (simp_all add: diverged_def)

lemma X_after_Suc: "X_after F dt param X0 (Suc n) = X_after F dt param (euler_step F dt param X0) n"
  by (simp add: X_after_def funpow_swap1)

lemma GCM_loop_char:
  assumes "X \<noteq> []"
  shows "\<exists>hist' time'. GCM_loop F dt param [m..<m + k] hist time X = Inr (hist', time')
     \<and> length hist' = length hist \<and> length time' = length time
     \<and> (\<forall>i < length hist. hist' ! i =
           (if m \<le> i \<and> i < m + recorded F dt param [m..<m + k] X
            then X_after F dt param X (i - m + 1) else hist ! i))
     \<and> (\<forall>i < length time. time' ! i =
           (if m \<le> i \<and> i < m + recorded F dt param [m..<m + k] X
            then fmul dt (Fin (real (i + 1))) else time ! i))"
  using assms
proof (induction k arbitrary: m hist time X)
  case 0
  then show ?case by auto
next
  case (Suc k)
  let ?X' = "euler_step F dt param X"
  have ne: "?X' \<noteq> []" using Suc.prems by (rule euler_step_nonempty)
  have up: "[m..<m + Suc k] = m # [Suc m..<Suc m + k]"
    by (simp add: upt_conv_Cons)
  obtain b where b: "diverged ?X' = Inr b" using diverged_nonempty [OF ne] by blast
  show ?case
  proof (cases b)
    case True
    with b up show ?thesis by (auto simp add: Let_def)
  next
    case False
    from Suc.IH [OF ne, of "Suc m" "hist[m := ?X']" "time[m := fmul dt (Fin (real (m + 1)))]"]
    obtain hist' time' where
      run: "GCM_loop F dt param [Suc m..<Suc m + k] (hist[m := ?X']) (time[m := fmul dt (Fin (real (m + 1)))]) ?X' = Inr (hist', time')"
      and lh: "length hist' = length hist" and lt: "length time' = length time"
      and hh: "\<forall>i < length hist. hist' ! i =
           (if Suc m \<le> i \<and> i < Suc m + recorded F dt param [Suc m..<Suc m + k] ?X'
            then X_after F dt param ?X' (i - Suc m + 1) else (hist[m := ?X']) ! i)"
      and tt: "\<forall>i < length time. time' ! i =
           (if Suc m \<le> i \<and> i < Suc m + recorded F dt param [Suc m..<Suc m + k] ?X'
            then fmul dt (Fin (real (i + 1))) else (time[m := fmul dt (Fin (real (m + 1)))]) ! i)"
      by auto
    have rec: "recorded F dt param [m..<m + Suc k] X = Suc (recorded F dt param [Suc m..<Suc m + k] ?X')"
      using b False up by (simp add: Let_def)
    have loop: "GCM_loop F dt param [m..<m + Suc k] hist time X = Inr (hist', time')"
      using b False up run by (simp add: Let_def)
    have H: "\<forall>i < length hist. hist' ! i =
           (if m \<le> i \<and> i < m + recorded F dt param [m..<m + Suc k] X
            then X_after F dt param X (i - m + 1) else hist ! i)"
    proof (intro allI impI)
      fix i assume i: "i < length hist"
      show "hist' ! i = (if m \<le> i \<and> i < m + recorded F dt param [m..<m + Suc k] X
            then X_after F dt param X (i - m + 1) else hist ! i)"
      proof (cases "i = m")
        case True
        then show ?thesis using hh i rec by (simp add: X_after_def)
      next
        case False
        then have "i - m + 1 = Suc (i - Suc m + 1)" if "Suc m \<le> i" using that by simp
        then show ?thesis using hh i rec False
          by (auto simp add: X_after_Suc simp del: funpow.simps)
      qed
    qed
    have T: "\<forall>i < length time. time' ! i =
           (if m \<le> i \<and> i < m + recorded F dt param [m..<m + Suc k] X
            then fmul dt (Fin (real (i + 1))) else time ! i)"
    proof (intro allI impI)
      fix i assume i: "i < length time"
      show "time' ! i = (if m \<le> i \<and> i < m + recorded F dt param [m..<m + Suc k] X
            then fmul dt (Fin (real (i + 1))) else time ! i)"
        using tt i rec by (cases "i = m") auto
    qed
    from loop lh lt H T show ?thesis by blast
  qed
qed


lemma recorded_le: "recorded F dt param ns X \<le> length ns"
  by (induction ns arbitrary: X) (auto simp add: Let_def split: sum.splits bool.splits)

lemma recorded_valid:
  "i < recorded F dt param ns X \<Longrightarrow> diverged (X_after F dt param X (Suc i)) = Inr False"
proof (induction ns arbitrary: X i)
  case Nil
  then show ?case by simp
next
  case (Cons n ns)
  let ?X' = "euler_step F dt param X"
  from Cons.prems have d: "diverged ?X' = Inr False"
    by (auto simp add: Let_def split: sum.splits bool.splits)
  then have r: "recorded F dt param (n # ns) X = Suc (recorded F dt param ns ?X')"
    by (simp add: Let_def)
  show ?case
  proof (cases i)
    case 0
    then show ?thesis using d by (simp add: X_after_def)
  next
    case (Suc j)
    then have "j < recorded F dt param ns ?X'" using Cons.prems r by simp
    from Cons.IH [OF this] show ?thesis using Suc by (simp only: X_after_Suc)
  qed
qed

lemma recorded_stop:
  "X \<noteq> [] \<Longrightarrow> recorded F dt param ns X < length ns \<Longrightarrow>
     diverged (X_after F dt param X (Suc (recorded F dt param ns X))) = Inr True"
proof (induction ns arbitrary: X)
  case Nil
  then show ?case by simp
next
  case (Cons n ns)
  let ?X' = "euler_step F dt param X"
  have ne: "?X' \<noteq> []" using Cons.prems(1) by (rule euler_step_nonempty)
  obtain b where b: "diverged ?X' = Inr b" using diverged_nonempty [OF ne] by blast
  show ?case
  proof (cases b)
    case True
    then show ?thesis using b by (simp add: Let_def X_after_def)
  next
    case False
    then have r: "recorded F dt param (n # ns) X = Suc (recorded F dt param ns ?X')"
      using b by (simp add: Let_def)
    then have "recorded F dt param ns ?X' < length ns" using Cons.prems(2) by simp
    from Cons.IH [OF ne this] show ?thesis using r by (simp only: X_after_Suc)
  qed
qed

lemma recorded_before_trip:
  assumes "diverged (X_after F dt param X (Suc i)) = Inr True"
  shows "recorded F dt param ns X \<le> i"
proof (rule ccontr)
  assume "\<not> recorded F dt param ns X \<le> i"
  then have "i < recorded F dt param ns X" by simp
  from recorded_valid [OF this] assms show False by simp
qed

lemma recorded_full:
  assumes "X \<noteq> []"
  shows "recorded F dt param ns X = length ns \<longleftrightarrow>
         (\<forall>i < length ns. diverged (X_after F dt param X (Suc i)) = Inr False)"
proof
  assume "recorded F dt param ns X = length ns"
  then show "\<forall>i < length ns. diverged (X_after F dt param X (Suc i)) = Inr False"
    using recorded_valid [of _ F dt param ns X] by simp
next
  assume a: "\<forall>i < length ns. diverged (X_after F dt param X (Suc i)) = Inr False"
  show "recorded F dt param ns X = length ns"
  proof (rule ccontr)
    assume "recorded F dt param ns X \<noteq> length ns"
    then have lt: "recorded F dt param ns X < length ns"
      using recorded_le [of F dt param ns X] by simp
    from recorded_stop [OF assms lt] a lt show False by simp
  qed
qed

lemma GCM_char:
  assumes "X0 \<noteq> []" and "0 \<le> nt"
  shows "\<exists>hist time. GCM X0 F dt nt param = Inr (hist, time)
     \<and> length hist = nat nt \<and> length time = nat nt
     \<and> (\<forall>i < nat nt. hist ! i =
           (if i < GCM_steps X0 F dt nt param then X_after F dt param X0 (Suc i)
            else replicate (length X0) NaN))
     \<and> (\<forall>i < nat nt. time ! i =
           (if i < GCM_steps X0 F dt nt param then fmul dt (Fin (real (i + 1)))
            else fmul dt (Fin (real i))))"
proof -
  from GCM_loop_char [OF assms(1), of F dt param 0 "nat nt"
      "replicate (nat nt) (replicate (length X0) NaN)"
      "map (\<lambda>n. fmul dt (Fin (real n))) [0..<nat nt]"]
  show ?thesis using assms(2)
    by (auto simp add: GCM_def GCM_steps_def)
qed

lemma GCM_empty:
  "GCM [] F dt nt param = (if nt = 0 then Inr ([], []) else Inl ValueError)"
proof -
  have e: "euler_step F dt param [] = []"
    using length_euler_step [of F dt param "[]"] by simp
  show ?thesis
  proof (cases "nt \<le> 0")
    case True
    then show ?thesis by (auto simp add: GCM_def)
  next
    case False
    then have "[0..<nat nt] = 0 # [1..<nat nt]" by (simp add: upt_conv_Cons)
    then show ?thesis using False e by (simp add: GCM_def diverged_def)
  qed
qed

lemma GCM_steps_le: "GCM_steps X0 F dt nt param \<le> nat nt"
  using recorded_le [of F dt param "[0..<nat nt]" X0] by (simp add: GCM_steps_def)

text \<open>
  Only \<open>hist\<close> is made of \<open>NaN\<close>. \<open>time\<close> is made as \<open>dt * np.arange(nt)\<close>, and a slot
  whose step was not recorded keeps that number.
\<close>

lemma GCM_time_unrecorded:
  assumes "GCM X0 F dt nt param = Inr (hist, time)"
    and "X0 \<noteq> []" and "GCM_steps X0 F dt nt param \<le> i" and "i < nat nt"
  shows "time ! i = fmul dt (Fin (real i))"
proof -
  have "0 \<le> nt" using assms(4) by simp
  from GCM_char [OF assms(2) this, of F dt param] assms(1,3,4) show ?thesis by auto
qed


lemma fold_fmax_Fin:
  "fold (\<lambda>y m. fmax m y) xs m = Fin r \<Longrightarrow>
     (\<exists>a. m = Fin a \<and> a \<le> r) \<and> (\<forall>v \<in> set xs. \<exists>a. v = Fin a \<and> a \<le> r)"
proof (induction xs arbitrary: m)
  case Nil
  then show ?case by simp
next
  case (Cons x xs)
  from Cons.prems have "fold (\<lambda>y m. fmax m y) xs (fmax m x) = Fin r" by simp
  from Cons.IH [OF this] obtain c where
    c: "fmax m x = Fin c" "c \<le> r" and rest: "\<forall>v \<in> set xs. \<exists>a. v = Fin a \<and> a \<le> r"
    by blast
  from c(1) obtain a b where ab: "m = Fin a" "x = Fin b" "c = max a b"
    by (cases m; cases x) simp_all
  with c(2) rest show ?case by auto
qed

lemma fold_fmax_finite:
  "m \<noteq> NaN \<Longrightarrow> NaN \<notin> set xs \<Longrightarrow> \<exists>r. fold (\<lambda>y m. fmax m y) xs m = Fin r"
proof (induction xs arbitrary: m)
  case Nil
  then show ?case by (cases m) simp_all
next
  case (Cons x xs)
  then have "fmax m x \<noteq> NaN" by (cases m; cases x) simp_all
  with Cons show ?case by simp
qed

lemma fabs_NaN_iff: "fabs v = NaN \<longleftrightarrow> v = NaN"
  by (cases v) simp_all

lemma NaN_fabs_iff: "NaN = fabs v \<longleftrightarrow> v = NaN"
  by (cases v) simp_all

lemma diverged_True_finite:
  assumes "diverged X = Inr True"
  shows "NaN \<notin> set X"
proof
  assume n: "NaN \<in> set X"
  then obtain x xs where X: "X = x # xs" by (cases X) auto
  from assms X obtain r where r: "fold (\<lambda>y m. fmax m y) (map fabs xs) (fabs x) = Fin r"
    by (cases "fold (\<lambda>y m. fmax m y) (map fabs xs) (fabs x)") (simp_all add: diverged_def)
  from fold_fmax_Fin [OF r] have "\<forall>v \<in> set (x # xs). fabs v \<noteq> NaN" by auto
  with n X show False by (auto simp add: fabs_NaN_iff)
qed

lemma diverged_False_bounded:
  assumes "diverged X = Inr False" and "NaN \<notin> set X" and "v \<in> set X"
  shows "\<exists>r. v = Fin r \<and> \<bar>r\<bar> \<le> 1000"
proof -
  from assms(3) obtain x xs where X: "X = x # xs" by (cases X) auto
  have "fabs x \<noteq> NaN" "NaN \<notin> set (map fabs xs)"
    using assms(2) X by (auto simp add: fabs_NaN_iff NaN_fabs_iff)
  from fold_fmax_finite [OF this] obtain r where
    r: "fold (\<lambda>y m. fmax m y) (map fabs xs) (fabs x) = Fin r" by blast
  with assms(1) X have le: "r \<le> 1000" by (simp add: diverged_def)
  from fold_fmax_Fin [OF r] assms(3) X obtain a where a: "fabs v = Fin a" "a \<le> r"
    by auto
  then show ?thesis using le by (cases v) auto
qed

lemma circ_nth: "k < length X \<Longrightarrow> circ X (int k) = X ! k"
  by (simp add: circ_def)

lemma euler_step_nth:
  assumes "k < length X"
  shows "euler_step F dt param X ! k =
     fadd (X ! k)
       (fmul dt
          (fsub (fadd (fsub (fmul (fneg (circ X (int k - 1)))
                                  (fsub (circ X (int k - 2)) (circ X (int k + 1))))
                            (X ! k))
                      F)
                (polyval1 param (X ! k))))"
  using assms
  by (simp add: euler_step_def vadd_def vsub_def smul_def polyval_def L96_eq1_xdot_def circ_nth)

lemma euler_step_NaN:
  assumes "NaN \<in> set X"
  shows "NaN \<in> set (euler_step F dt param X)"
proof -
  from assms obtain k where k: "k < length X" "X ! k = NaN"
    by (auto simp add: in_set_conv_nth)
  then have "euler_step F dt param X ! k = NaN" by (simp add: euler_step_nth)
  moreover have "k < length (euler_step F dt param X)" using k by (simp add: length_euler_step)
  ultimately show ?thesis by (metis nth_mem)
qed

lemma X_after_NaN:
  "NaN \<in> set (X_after F dt param X0 i) \<Longrightarrow> NaN \<in> set (X_after F dt param X0 (i + j))"
proof (induction j)
  case 0
  then show ?case by simp
next
  case (Suc j)
  then have "NaN \<in> set (euler_step F dt param (X_after F dt param X0 (i + j)))"
    by (simp add: euler_step_NaN)
  then show ?case by (simp add: X_after_def)
qed

lemma horner_poly:
  "fold (\<lambda>c y. y * x + c) cs (a::real) =
     a * x ^ length cs + (\<Sum>i < length cs. cs ! i * x ^ (length cs - 1 - i))"
proof (induction cs rule: rev_induct)
  case Nil
  then show ?case by simp
next
  case (snoc c cs)
  have "(\<Sum>i < length cs. (cs @ [c]) ! i * x ^ (length cs - i)) =
        (\<Sum>i < length cs. (cs ! i * x ^ (length cs - 1 - i)) * x)"
  proof (rule sum.cong)
    fix i assume "i \<in> {..<length cs}"
    then have i: "i < length cs" by simp
    then have "length cs - i = Suc (length cs - 1 - i)" by simp
    then show "(cs @ [c]) ! i * x ^ (length cs - i) = (cs ! i * x ^ (length cs - 1 - i)) * x"
      using i by (simp add: nth_append)
  qed simp
  then show ?case using snoc
    by (simp add: algebra_simps sum_distrib_left sum_distrib_right)
qed

lemma polyval1_Fin:
  "polyval1 (map Fin cs) (Fin x) = Fin (\<Sum>i < length cs. cs ! i * x ^ (length cs - 1 - i))"
proof -
  have "fold (\<lambda>pv y. fadd (fmul y (Fin x)) pv) (map Fin cs) (Fin a) =
        Fin (fold (\<lambda>c y. y * x + c) cs a)" for a
    by (induction cs arbitrary: a) simp_all
  then show ?thesis by (simp add: polyval1_def horner_poly)
qed

section \<open>The claims about \<open>GCM\<close>\<close>

text \<open>The definitions that evaluate a run on given numbers.\<close>

lemmas eval_defs = GCM_def GCM_steps_def euler_step_def diverged_def vadd_def vsub_def smul_def
  polyval_def polyval1_def L96_eq1_xdot_def circ_def X_after_def Let_def upt_rec numeral_eq_Suc

text \<open>
  Claim C9. The history leaves the initial condition out: when \<open>GCM\<close> returns, row \<open>n\<close> of
  \<open>hist\<close>, for every step \<open>n\<close> that was recorded, is the state after \<open>n + 1\<close> Euler steps
  from \<open>X0\<close>, and \<open>time[n]\<close> is \<open>dt * (n + 1)\<close>. The first sample is the state at time
  \<open>dt\<close>; no row holds the state after zero steps.
\<close>

theorem GCM_records_after_step:
  assumes "GCM X0 F dt nt param = Inr (hist, time)"
    and "n < GCM_steps X0 F dt nt param"
  shows "hist ! n = X_after F dt param X0 (n + 1) \<and> time ! n = fmul dt (Fin (real (n + 1)))"
proof -
  have le: "GCM_steps X0 F dt nt param \<le> nat nt" by (rule GCM_steps_le)
  with assms(2) have nt: "0 \<le> nt" "n < nat nt" by simp_all
  have ne: "X0 \<noteq> []"
  proof
    assume "X0 = []"
    with assms(1) nt(2) show False by (simp add: GCM_empty split: if_splits)
  qed
  from GCM_char [OF ne nt(1), of F dt param] assms show ?thesis using nt(2) by auto
qed


text \<open>
  Claim C1. Every recorded iteration of \<open>GCM\<close> is one Euler-forward step
  \<open>X' = X + dt * (L96_eq1_xdot(X, F) - polyval(param, X))\<close>: row \<open>n\<close> of the history is
  that expression of the state before it, which is \<open>X0\<close> for the first row and the row
  above for the others. The polynomial is evaluated elementwise, component \<open>k\<close> of the
  new state using \<open>polyval\<close> at component \<open>k\<close> of the old one.
\<close>

theorem GCM_iteration_euler_forward:
  assumes "GCM X0 F dt nt param = Inr (hist, time)"
    and "n < GCM_steps X0 F dt nt param"
    and "X = (if n = 0 then X0 else hist ! (n - 1))"
  shows "hist ! n = vadd X (smul dt (vsub (L96_eq1_xdot X F) (polyval param X)))
     \<and> (\<forall>k < length X0. hist ! n ! k =
           fadd (X ! k) (fmul dt (fsub (L96_eq1_xdot X F ! k) (polyval1 param (X ! k)))))"
proof -
  have le: "GCM_steps X0 F dt nt param \<le> nat nt" by (rule GCM_steps_le)
  with assms(2) have nt: "0 \<le> nt" "n < nat nt" by simp_all
  have ne: "X0 \<noteq> []"
  proof
    assume "X0 = []"
    with assms(1) nt(2) show False by (simp add: GCM_empty split: if_splits)
  qed
  from GCM_char [OF ne nt(1), of F dt param] assms(1)
  have rows: "\<forall>i < nat nt. hist ! i =
       (if i < GCM_steps X0 F dt nt param then X_after F dt param X0 (Suc i)
        else replicate (length X0) NaN)"
    by auto
  have X: "X = X_after F dt param X0 n"
  proof (cases n)
    case 0
    then show ?thesis using assms(3) by (simp add: X_after_def)
  next
    case (Suc m)
    then have "m < nat nt" "m < GCM_steps X0 F dt nt param" using nt(2) assms(2) by simp_all
    with rows have "hist ! m = X_after F dt param X0 (Suc m)" by simp
    then show ?thesis using Suc assms(3) by simp
  qed
  have lX: "length X = length X0" using X by (simp add: length_X_after)
  have hn: "hist ! n = euler_step F dt param X"
    using rows nt(2) assms(2) X by (simp add: X_after_def)
  have "hist ! n ! k = fadd (X ! k) (fmul dt (fsub (L96_eq1_xdot X F ! k) (polyval1 param (X ! k))))"
    if "k < length X0" for k
    using that lX hn
    by (simp add: euler_step_def vadd_def vsub_def smul_def polyval_def L96_eq1_xdot_def)
  with hn show ?thesis by (simp add: euler_step_def)
qed


text \<open>
  Claim C3. When the guard trips in a run of \<open>GCM\<close>, the rows of the returned history
  before its first \<open>NaN\<close> are fewer than the \<open>nt\<close> asked for, they are the rows of the
  recorded steps, and no number in them is larger than 1000 in absolute value.
\<close>

theorem GCM_tripped_prefix_bounded:
  assumes "GCM X0 F dt nt param = Inr (hist, time)"
    and "n < nat nt"
    and "diverged (X_after F dt param X0 (n + 1)) = Inr True"
  shows "length (valid_prefix hist) < nat nt
     \<and> valid_prefix hist = take (GCM_steps X0 F dt nt param) hist
     \<and> (\<forall>row \<in> set (valid_prefix hist). \<forall>v \<in> set row. \<exists>r. v = Fin r \<and> \<bar>r\<bar> \<le> 1000)"
proof -
  let ?N = "GCM_steps X0 F dt nt param"
  have "X_after F dt param X0 (n + 1) \<noteq> []"
    using assms(3) by (auto simp add: diverged_empty)
  then have ne: "X0 \<noteq> []"
    using length_X_after [of F dt param X0 "n + 1"] by auto
  have nt: "0 \<le> nt" using assms(2) by simp
  have st: "?N \<le> n"
    using recorded_before_trip [of F dt param X0 n "[0..<nat nt]"] assms(3)
    by (simp add: GCM_steps_def)
  then have lt: "?N < nat nt" using assms(2) by simp
  from GCM_char [OF ne nt, of F dt param] assms(1)
  have len: "length hist = nat nt"
    and rows: "\<forall>i < nat nt. hist ! i =
       (if i < ?N then X_after F dt param X0 (Suc i) else replicate (length X0) NaN)"
    by auto
  have trip: "diverged (X_after F dt param X0 (Suc ?N)) = Inr True"
    using recorded_stop [OF ne, of F dt param "[0..<nat nt]"] lt by (simp add: GCM_steps_def)
  have fin: "NaN \<notin> set (X_after F dt param X0 (Suc i))" if "i < ?N" for i
  proof
    assume "NaN \<in> set (X_after F dt param X0 (Suc i))"
    from X_after_NaN [OF this, of "?N - i"] that
    have "NaN \<in> set (X_after F dt param X0 (Suc ?N))" by simp
    with diverged_True_finite [OF trip] show False by simp
  qed
  have ok: "diverged (X_after F dt param X0 (Suc i)) = Inr False" if "i < ?N" for i
    using recorded_valid [of i F dt param "[0..<nat nt]" X0] that by (simp add: GCM_steps_def)
  have before: "\<forall>i < ?N. i < length hist \<longrightarrow> NaN \<notin> set (hist ! i)"
    using rows fin lt by simp
  have "hist ! ?N = replicate (length X0) NaN" using rows lt by simp
  then have at: "?N < length hist \<longrightarrow> \<not> NaN \<notin> set (hist ! ?N)"
    using ne by simp
  have vp: "valid_prefix hist = take ?N hist"
    unfolding valid_prefix_def
  proof (rule takeWhile_eq_take_P_nth)
    show "NaN \<notin> set (hist ! i)" if "i < ?N" "i < length hist" for i
      using before that by simp
    show "\<not> NaN \<notin> set (hist ! ?N)" if "?N < length hist"
      using at that by simp
  qed
  have bound: "\<exists>r. v = Fin r \<and> \<bar>r\<bar> \<le> 1000" if "row \<in> set (take ?N hist)" "v \<in> set row" for row v
  proof -
    from that(1) obtain i where i: "i < ?N" "row = hist ! i"
      using lt len by (auto simp add: in_set_conv_nth)
    then have "row = X_after F dt param X0 (Suc i)" using rows lt by simp
    with diverged_False_bounded [OF ok [OF i(1)] fin [OF i(1)]] that(2) show ?thesis by simp
  qed
  from vp bound lt len show ?thesis by simp
qed


text \<open>
  Claim C4. \<open>GCM\<close> takes the step count \<open>nt\<close> itself and records after every step, so
  its sampling interval is \<open>dt\<close>. For a count \<open>nt \<ge> 0\<close> and a state with at least one
  component it returns \<open>hist\<close> and \<open>time\<close> of \<open>nt\<close> entries. It records one row for each
  step, \<open>nt\<close> rows, exactly when the guard never trips, and fewer when it does; the rows
  that are not recorded stay \<open>NaN\<close>. With \<open>nt = floor(T / dt)\<close> that is
  \<open>floor(total_time / sampling_interval)\<close> rows. How a caller gets \<open>nt\<close> from \<open>T\<close> and \<open>dt\<close>
  (the call sites write \<open>int(T / dt)\<close>, a division of doubles) is not part of \<open>GCM\<close>.
\<close>

theorem GCM_row_count:
  assumes "0 \<le> nt" and "X0 \<noteq> []"
  shows "\<exists>hist time. GCM X0 F dt nt param = Inr (hist, time)
     \<and> length hist = nat nt \<and> length time = nat nt
     \<and> GCM_steps X0 F dt nt param \<le> nat nt
     \<and> (GCM_steps X0 F dt nt param = nat nt \<longleftrightarrow>
          (\<forall>i < nat nt. diverged (X_after F dt param X0 (i + 1)) = Inr False))
     \<and> (\<forall>i < nat nt. hist ! i =
          (if i < GCM_steps X0 F dt nt param
           then X_after F dt param X0 (i + 1) else replicate (length X0) NaN))"
proof -
  have full: "GCM_steps X0 F dt nt param = nat nt \<longleftrightarrow>
      (\<forall>i < nat nt. diverged (X_after F dt param X0 (i + 1)) = Inr False)"
    using recorded_full [OF assms(2), of F dt param "[0..<nat nt]"]
    by (simp add: GCM_steps_def)
  have le: "GCM_steps X0 F dt nt param \<le> nat nt" by (rule GCM_steps_le)
  from GCM_char [OF assms(2,1), of F dt param] obtain hist time where
    g: "GCM X0 F dt nt param = Inr (hist, time)"
    and l: "length hist = nat nt" "length time = nat nt"
    and r: "\<forall>i < nat nt. hist ! i =
       (if i < GCM_steps X0 F dt nt param
        then X_after F dt param X0 (Suc i) else replicate (length X0) NaN)"
    by blast
  show ?thesis
  proof (intro exI conjI)
    show "GCM X0 F dt nt param = Inr (hist, time)" by (rule g)
    show "length hist = nat nt" by (rule l(1))
    show "length time = nat nt" by (rule l(2))
    show "GCM_steps X0 F dt nt param \<le> nat nt" by (rule le)
    show "GCM_steps X0 F dt nt param = nat nt \<longleftrightarrow>
      (\<forall>i < nat nt. diverged (X_after F dt param X0 (i + 1)) = Inr False)"
      by (rule full)
    show "\<forall>i < nat nt. hist ! i =
          (if i < GCM_steps X0 F dt nt param
           then X_after F dt param X0 (i + 1) else replicate (length X0) NaN)"
      using r by simp
  qed
qed

text \<open>
  Claim C8, amended. \<open>GCM\<close> checks none of its parameters. It raises only for a negative
  \<open>nt\<close> (from allocating \<open>hist\<close>) and for a state with no component when \<open>nt\<close> is at
  least 1 (from the maximum of an empty array, at the first guard). On every other input,
  fewer than four components and a zero or negative \<open>dt\<close> included, it returns \<open>hist\<close> and
  \<open>time\<close> of \<open>nt\<close> entries.
\<close>

theorem GCM_raises_only:
  "(nt < 0 \<or> (X0 = [] \<and> 0 < nt) \<longrightarrow> GCM X0 F dt nt param = Inl ValueError)
   \<and> (0 \<le> nt \<and> (X0 \<noteq> [] \<or> nt = 0) \<longrightarrow>
        (\<exists>hist time. GCM X0 F dt nt param = Inr (hist, time)
           \<and> length hist = nat nt \<and> length time = nat nt))"
proof (intro conjI impI)
  assume "nt < 0 \<or> (X0 = [] \<and> 0 < nt)"
  then show "GCM X0 F dt nt param = Inl ValueError"
  proof
    assume "nt < 0"
    then show ?thesis by (simp add: GCM_def)
  next
    assume "X0 = [] \<and> 0 < nt"
    then show ?thesis by (simp add: GCM_empty)
  qed
next
  assume a: "0 \<le> nt \<and> (X0 \<noteq> [] \<or> nt = 0)"
  show "\<exists>hist time. GCM X0 F dt nt param = Inr (hist, time)
           \<and> length hist = nat nt \<and> length time = nat nt"
  proof (cases "X0 = []")
    case True
    with a show ?thesis by (simp add: GCM_empty)
  next
    case False
    from GCM_char [OF False, of nt F dt param] a show ?thesis by blast
  qed
qed

text \<open>
  Claim C8 as stated fails: with three components and a negative step size \<open>GCM\<close> runs
  both steps and returns a history.
\<close>

theorem GCM_no_validation_counterexample:
  "length [Fin 1, Fin 2, Fin 3] < 4 \<and> (- 1 / 100 :: real) \<le> 0
   \<and> GCM [Fin 1, Fin 2, Fin 3] (Fin 18) (Fin (- 1 / 100)) 2 [Fin 0] =
       Inr ([[Fin (83 / 100), Fin (46 / 25), Fin (57 / 20)],
             [Fin (6583 / 10000), Fin (1049 / 625), Fin (5397 / 2000)]],
            [Fin (- (1 / 100)), Fin (- (1 / 50))])"
  by (simp add: eval_defs)

theorem GCM_raises_only_witness:
  "GCM [] (Fin 18) (Fin (1 / 100)) 2 [Fin 0] = Inl ValueError
   \<and> GCM [Fin 1] (Fin 0) (Fin 0) (- 1) [Fin 0] = Inl ValueError
   \<and> (\<exists>hist time. GCM [Fin 1] (Fin 0) (Fin 0) 2 [Fin 0] = Inr (hist, time)
         \<and> length hist = nat 2 \<and> length time = nat 2)"
  using GCM_raises_only [of 2 "[]" "Fin 18" "Fin (1 / 100)" "[Fin 0]"]
    GCM_raises_only [of "- 1" "[Fin 1]" "Fin 0" "Fin 0" "[Fin 0]"]
    GCM_raises_only [of 2 "[Fin 1]" "Fin 0" "Fin 0" "[Fin 0]"]
  by simp

theorem GCM_records_after_step_witness:
  "GCM [Fin 1, Fin 2, Fin 3, Fin 4] (Fin 18) (Fin (1 / 100)) 2 [Fin 0] =
     Inr ([[Fin (113 / 100), Fin (43 / 20), Fin (321 / 100), Fin (411 / 100)],
           [Fin (627567 / 500000), Fin (229833 / 100000), Fin (342197 / 100000),
            Fin (2108079 / 500000)]],
          [Fin (1 / 100), Fin (1 / 50)])
   \<and> 1 < GCM_steps [Fin 1, Fin 2, Fin 3, Fin 4] (Fin 18) (Fin (1 / 100)) 2 [Fin 0]
   \<and> X_after (Fin 18) (Fin (1 / 100)) [Fin 0] [Fin 1, Fin 2, Fin 3, Fin 4] (1 + 1) =
       [Fin (627567 / 500000), Fin (229833 / 100000), Fin (342197 / 100000),
        Fin (2108079 / 500000)]
   \<and> fmul (Fin (1 / 100)) (Fin (real (1 + 1))) = Fin (1 / 50)"
proof -
  have g: "GCM [Fin 1, Fin 2, Fin 3, Fin 4] (Fin 18) (Fin (1 / 100)) 2 [Fin 0] =
     Inr ([[Fin (113 / 100), Fin (43 / 20), Fin (321 / 100), Fin (411 / 100)],
           [Fin (627567 / 500000), Fin (229833 / 100000), Fin (342197 / 100000),
            Fin (2108079 / 500000)]],
          [Fin (1 / 100), Fin (1 / 50)])"
    by (simp add: eval_defs)
  have s: "1 < GCM_steps [Fin 1, Fin 2, Fin 3, Fin 4] (Fin 18) (Fin (1 / 100)) 2 [Fin 0]"
    by (simp add: eval_defs)
  from GCM_records_after_step [OF g s] g s show ?thesis by simp
qed


theorem GCM_iteration_euler_forward_witness:
  "GCM [Fin 1, Fin 2, Fin 3, Fin 4] (Fin 18) (Fin (1 / 100)) 2 [Fin (1 / 2), Fin 1] =
     Inr ([[Fin (223 / 200), Fin (213 / 100), Fin (637 / 200), Fin (102 / 25)],
           [Fin (1225231 / 1000000), Fin (9032283 / 4000000), Fin (6740759 / 2000000),
            Fin (16625889 / 4000000)]],
          [Fin (1 / 100), Fin (1 / 50)])
   \<and> 1 < GCM_steps [Fin 1, Fin 2, Fin 3, Fin 4] (Fin 18) (Fin (1 / 100)) 2 [Fin (1 / 2), Fin 1]
   \<and> [Fin (1225231 / 1000000), Fin (9032283 / 4000000), Fin (6740759 / 2000000),
       Fin (16625889 / 4000000)] =
      vadd [Fin (223 / 200), Fin (213 / 100), Fin (637 / 200), Fin (102 / 25)]
        (smul (Fin (1 / 100))
           (vsub (L96_eq1_xdot [Fin (223 / 200), Fin (213 / 100), Fin (637 / 200), Fin (102 / 25)]
                    (Fin 18))
                 (polyval [Fin (1 / 2), Fin 1]
                    [Fin (223 / 200), Fin (213 / 100), Fin (637 / 200), Fin (102 / 25)])))"
proof -
  have g: "GCM [Fin 1, Fin 2, Fin 3, Fin 4] (Fin 18) (Fin (1 / 100)) 2 [Fin (1 / 2), Fin 1] =
     Inr ([[Fin (223 / 200), Fin (213 / 100), Fin (637 / 200), Fin (102 / 25)],
           [Fin (1225231 / 1000000), Fin (9032283 / 4000000), Fin (6740759 / 2000000),
            Fin (16625889 / 4000000)]],
          [Fin (1 / 100), Fin (1 / 50)])"
    by (simp add: eval_defs)
  have s: "1 < GCM_steps [Fin 1, Fin 2, Fin 3, Fin 4] (Fin 18) (Fin (1 / 100)) 2
                  [Fin (1 / 2), Fin 1]"
    by (simp add: eval_defs)
  from GCM_iteration_euler_forward [OF g s refl] g s show ?thesis by simp
qed


theorem GCM_tripped_prefix_bounded_witness:
  "GCM [Fin 1000000, Fin 1000000, Fin 1000000, Fin 1000000] (Fin 18) (Fin (1 / 500)) 3 [Fin 0] =
     Inr ([[NaN, NaN, NaN, NaN], [NaN, NaN, NaN, NaN], [NaN, NaN, NaN, NaN]],
          [Fin 0, Fin (1 / 500), Fin (1 / 250)])
   \<and> (0::nat) < nat 3
   \<and> diverged (X_after (Fin 18) (Fin (1 / 500)) [Fin 0]
        [Fin 1000000, Fin 1000000, Fin 1000000, Fin 1000000] (0 + 1)) = Inr True
   \<and> valid_prefix [[NaN, NaN, NaN, NaN], [NaN, NaN, NaN, NaN], [NaN, NaN, NaN, NaN]] = []
   \<and> GCM [Fin 0, Fin 0, Fin 0, Fin 0] (Fin 2000) (Fin (1 / 2)) 3 [Fin 0] =
       Inr ([[Fin 1000, Fin 1000, Fin 1000, Fin 1000], [NaN, NaN, NaN, NaN],
             [NaN, NaN, NaN, NaN]],
            [Fin (1 / 2), Fin (1 / 2), Fin 1])
   \<and> diverged (X_after (Fin 2000) (Fin (1 / 2)) [Fin 0] [Fin 0, Fin 0, Fin 0, Fin 0] (1 + 1))
       = Inr True
   \<and> valid_prefix [[Fin 1000, Fin 1000, Fin 1000, Fin 1000], [NaN, NaN, NaN, NaN],
                    [NaN, NaN, NaN, NaN]] = [[Fin 1000, Fin 1000, Fin 1000, Fin 1000]]"
proof -
  have g: "GCM [Fin 1000000, Fin 1000000, Fin 1000000, Fin 1000000] (Fin 18) (Fin (1 / 500)) 3
             [Fin 0] =
     Inr ([[NaN, NaN, NaN, NaN], [NaN, NaN, NaN, NaN], [NaN, NaN, NaN, NaN]],
          [Fin 0, Fin (1 / 500), Fin (1 / 250)])"
    by (simp add: eval_defs)
  have n: "(0::nat) < nat 3" by simp
  have d: "diverged (X_after (Fin 18) (Fin (1 / 500)) [Fin 0]
        [Fin 1000000, Fin 1000000, Fin 1000000, Fin 1000000] (0 + 1)) = Inr True"
    by (simp add: eval_defs)
  have g2: "GCM [Fin 0, Fin 0, Fin 0, Fin 0] (Fin 2000) (Fin (1 / 2)) 3 [Fin 0] =
       Inr ([[Fin 1000, Fin 1000, Fin 1000, Fin 1000], [NaN, NaN, NaN, NaN],
             [NaN, NaN, NaN, NaN]],
            [Fin (1 / 2), Fin (1 / 2), Fin 1])"
    by (simp add: eval_defs)
  have n2: "(1::nat) < nat 3" by simp
  have d2: "diverged (X_after (Fin 2000) (Fin (1 / 2)) [Fin 0] [Fin 0, Fin 0, Fin 0, Fin 0] (1 + 1))
       = Inr True"
    by (simp add: eval_defs)
  from GCM_tripped_prefix_bounded [OF g n d] GCM_tripped_prefix_bounded [OF g2 n2 d2]
    g n d g2 d2
  show ?thesis by (simp add: valid_prefix_def)
qed

theorem GCM_row_count_witness:
  "(0::int) \<le> 2 \<and> [Fin 1, Fin 2, Fin 3, Fin 4] \<noteq> []
   \<and> (\<exists>hist time.
        GCM [Fin 1, Fin 2, Fin 3, Fin 4] (Fin 18) (Fin (1 / 100)) 2 [Fin 0] = Inr (hist, time)
        \<and> length hist = 2 \<and> length time = 2)
   \<and> GCM_steps [Fin 1, Fin 2, Fin 3, Fin 4] (Fin 18) (Fin (1 / 100)) 2 [Fin 0] = 2
   \<and> (0::int) \<le> 3 \<and> [Fin 0, Fin 0, Fin 0, Fin 0] \<noteq> []
   \<and> (\<exists>hist time.
        GCM [Fin 0, Fin 0, Fin 0, Fin 0] (Fin 2000) (Fin (1 / 2)) 3 [Fin 0] = Inr (hist, time)
        \<and> length hist = 3 \<and> length time = 3)
   \<and> GCM_steps [Fin 0, Fin 0, Fin 0, Fin 0] (Fin 2000) (Fin (1 / 2)) 3 [Fin 0] = 1"
proof -
  have n: "(0::int) \<le> 2" and n2: "(0::int) \<le> 3" by simp_all
  have ne: "[Fin 1, Fin 2, Fin 3, Fin 4] \<noteq> []" and ne2: "[Fin 0, Fin 0, Fin 0, Fin 0] \<noteq> []"
    by simp_all
  have s: "GCM_steps [Fin 1, Fin 2, Fin 3, Fin 4] (Fin 18) (Fin (1 / 100)) 2 [Fin 0] = 2"
    by (simp add: eval_defs)
  have s2: "GCM_steps [Fin 0, Fin 0, Fin 0, Fin 0] (Fin 2000) (Fin (1 / 2)) 3 [Fin 0] = 1"
    by (simp add: eval_defs)
  from GCM_row_count [OF n ne, of "Fin 18" "Fin (1 / 100)" "[Fin 0]"]
    GCM_row_count [OF n2 ne2, of "Fin 2000" "Fin (1 / 2)" "[Fin 0]"] s s2
  show ?thesis by auto
qed

section \<open>Zero coupling and zero noise\<close>

lemma fadd_zero: "fadd v (Fin 0) = v"
  by (cases v) simp_all

lemma fsub_zero: "fsub v (Fin 0) = v"
  by (cases v) simp_all

lemma polyval1_zero: "polyval1 [Fin 0] x = (case x of NaN \<Rightarrow> NaN | Fin r \<Rightarrow> Fin 0)"
  by (cases x) (simp_all add: polyval1_def)

lemma length_reduced_step: "length (reduced_step F dt c X) = length X"
  by (simp add: reduced_step_def vadd_def smul_def L96_eq1_xdot_def)

lemma reduced_step_nth:
  assumes "k < length X"
  shows "reduced_step F dt c X ! k =
     fadd (X ! k)
       (fmul dt
          (fsub (fadd (fsub (fmul (fneg (circ X (int k - 1)))
                                  (fsub (circ X (int k - 2)) (circ X (int k + 1))))
                            (X ! k))
                      F)
                c))"
  using assms
  by (simp add: reduced_step_def vadd_def smul_def L96_eq1_xdot_def circ_nth)

lemma euler_step_zero_param: "euler_step F dt [Fin 0] X = reduced_step F dt (Fin 0) X"
proof (rule nth_equalityI)
  show "length (euler_step F dt [Fin 0] X) = length (reduced_step F dt (Fin 0) X)"
    by (simp add: length_euler_step length_reduced_step)
next
  fix k assume "k < length (euler_step F dt [Fin 0] X)"
  then have k: "k < length X" by (simp add: length_euler_step)
  show "euler_step F dt [Fin 0] X ! k = reduced_step F dt (Fin 0) X ! k"
  proof (cases "X ! k")
    case NaN
    then show ?thesis using k by (simp add: euler_step_nth reduced_step_nth)
  next
    case (Fin r)
    then show ?thesis using k by (simp add: euler_step_nth reduced_step_nth polyval1_zero)
  qed
qed

lemma reduced_step_no_coupling:
  "reduced_step F dt (Fin 0) X = vadd X (smul dt (L96_eq1_xdot X F))"
proof -
  have "map (\<lambda>d. fsub d (Fin 0)) (L96_eq1_xdot X F) = L96_eq1_xdot X F"
    by (simp add: fsub_zero)
  then show ?thesis by (simp add: reduced_step_def)
qed

lemma GCM_loop_skeleton:
  "GCM_loop F dt param ns hist time X = spec_run_loop (euler_step F dt param) dt ns hist time X"
  by (induction ns arbitrary: hist time X) (simp_all add: Let_def split: sum.splits bool.splits)

lemma GCM_skeleton: "GCM X0 F dt nt param = spec_run (euler_step F dt param) X0 dt nt"
  by (simp add: GCM_def spec_run_def GCM_loop_skeleton)

lemma polyval_zero_finite:
  assumes "NaN \<notin> set X"
  shows "polyval [Fin 0] X = replicate (length X) (Fin 0)"
proof (rule nth_equalityI)
  show "length (polyval [Fin 0] X) = length (replicate (length X) (Fin 0))"
    by (simp add: polyval_def)
next
  fix k assume "k < length (polyval [Fin 0] X)"
  then have k: "k < length X" by (simp add: polyval_def)
  then have "X ! k \<noteq> NaN" using assms by (metis nth_mem)
  then show "polyval [Fin 0] X ! k = replicate (length X) (Fin 0) ! k"
    using k by (cases "X ! k") (simp_all add: polyval_def polyval1_zero)
qed

text \<open>
  Claim C6. With the zero polynomial \<open>param = [0]\<close>, \<open>GCM\<close> returns what the stepping
  skeleton returns for the reduced step with coupling term 0, on every input; that step
  is \<open>X + dt * L96_eq1_xdot(X, F)\<close>, and on a state without \<open>NaN\<close> the \<open>polyval\<close> term is
  an array of zeros.
\<close>

theorem GCM_zero_param_is_zero_coupling:
  "GCM X0 F dt nt [Fin 0] = spec_run (reduced_step F dt (Fin 0)) X0 dt nt
   \<and> reduced_step F dt (Fin 0) X = vadd X (smul dt (L96_eq1_xdot X F))
   \<and> (NaN \<notin> set X \<longrightarrow> polyval [Fin 0] X = replicate (length X) (Fin 0))"
proof -
  have "euler_step F dt [Fin 0] = reduced_step F dt (Fin 0)"
    by (rule ext) (rule euler_step_zero_param)
  then have "GCM X0 F dt nt [Fin 0] = spec_run (reduced_step F dt (Fin 0)) X0 dt nt"
    by (simp add: GCM_skeleton)
  then show ?thesis by (simp add: reduced_step_no_coupling polyval_zero_finite)
qed

theorem GCM_zero_param_is_zero_coupling_witness:
  "GCM [Fin 1, Fin 2, Fin 3, Fin 4] (Fin 18) (Fin (1 / 100)) 2 [Fin 0] =
     spec_run (reduced_step (Fin 18) (Fin (1 / 100)) (Fin 0)) [Fin 1, Fin 2, Fin 3, Fin 4]
       (Fin (1 / 100)) 2
   \<and> NaN \<notin> set [Fin 1, Fin 2, Fin 3, Fin 4]
   \<and> polyval [Fin 0] [Fin 1, Fin 2, Fin 3, Fin 4] = [Fin 0, Fin 0, Fin 0, Fin 0]"
  using GCM_zero_param_is_zero_coupling
    [of "[Fin 1, Fin 2, Fin 3, Fin 4]" "Fin 18" "Fin (1 / 100)" 2 "[Fin 1, Fin 2, Fin 3, Fin 4]"]
  by simp

lemma red_noise_off:
  assumes "0 \<le> (1 - p) * (1 + p)"
  shows "red_noise (Fin p) (Fin 0) (replicate k (Fin 0)) (fst (randn k g)) = replicate k (Fin 0)"
proof (rule nth_equalityI)
  show "length (red_noise (Fin p) (Fin 0) (replicate k (Fin 0)) (fst (randn k g))) =
        length (replicate k (Fin 0))"
    by (simp add: red_noise_def vadd_def smul_def randn_def)
next
  fix i assume "i < length (red_noise (Fin p) (Fin 0) (replicate k (Fin 0)) (fst (randn k g)))"
  then have i: "i < k" by (simp add: red_noise_def vadd_def smul_def randn_def)
  have "\<not> (1 - p) * (1 + p) < 0" using assms by simp
  then show "red_noise (Fin p) (Fin 0) (replicate k (Fin 0)) (fst (randn k g)) ! i =
        replicate k (Fin 0) ! i"
    using i by (simp add: red_noise_def vadd_def smul_def randn_def)
qed

lemma stoch_step_off:
  "stoch_step F dt param (Fin 0) (replicate (length X) (Fin 0)) X = euler_step F dt param X"
proof (rule nth_equalityI)
  show "length (stoch_step F dt param (Fin 0) (replicate (length X) (Fin 0)) X) =
        length (euler_step F dt param X)"
    by (simp add: stoch_step_def euler_step_def vadd_def vsub_def smul_def polyval_def
        L96_eq1_xdot_def)
next
  fix k assume "k < length (stoch_step F dt param (Fin 0) (replicate (length X) (Fin 0)) X)"
  then have k: "k < length X"
    by (simp add: stoch_step_def vadd_def vsub_def smul_def polyval_def L96_eq1_xdot_def)
  then show "stoch_step F dt param (Fin 0) (replicate (length X) (Fin 0)) X ! k =
        euler_step F dt param X ! k"
    by (simp add: stoch_step_def euler_step_def vadd_def vsub_def smul_def polyval_def
        L96_eq1_xdot_def fadd_zero)
qed

lemma GCMs_loop_off:
  assumes "0 \<le> (1 - p) * (1 + p)"
  shows "fst (GCMs_loop F dt param (Fin 0) (Fin p) ns hist time X
               (replicate (length X) (Fin 0)) g) =
         GCM_loop F dt param ns hist time X"
proof (induction ns arbitrary: hist time X g)
  case Nil
  then show ?case by simp
next
  case (Cons n ns)
  obtain z g' where r: "randn (length X) g = (z, g')" by (cases "randn (length X) g")
  then have z: "z = fst (randn (length X) g)" by simp
  have ek: "red_noise (Fin p) (Fin 0) (replicate (length X) (Fin 0)) z =
            replicate (length X) (Fin 0)"
    unfolding z using assms by (rule red_noise_off)
  have len: "length (euler_step F dt param X) = length X" by (rule length_euler_step)
  show ?case
    using Cons.IH [of _ _ "euler_step F dt param X" g'] len
    by (simp add: r ek stoch_step_off Let_def split: sum.splits bool.splits)
qed

text \<open>
  Claim C10. \<open>GCMs\<close> with \<open>stoch = 0\<close> and its default \<open>phi = 0.984\<close> returns the pair
  \<open>(hist, time)\<close> that \<open>GCM\<close> returns on the same arguments, whatever the generator
  gives: the red noise \<open>ek\<close> computed from zeros is zeros again.
\<close>

theorem GCMs_without_noise_is_GCM:
  "fst (GCMs X0 F dt nt param (Fin 0) (Fin (984 / 1000)) g) = GCM X0 F dt nt param
   \<and> red_noise (Fin (984 / 1000)) (Fin 0) (replicate k (Fin 0)) (fst (randn k g))
       = replicate k (Fin 0)"
proof -
  have p: "(0::real) \<le> (1 - 984 / 1000) * (1 + 984 / 1000)" by simp
  have "fst (GCMs X0 F dt nt param (Fin 0) (Fin (984 / 1000)) g) = GCM X0 F dt nt param"
    using GCMs_loop_off [OF p] by (simp add: GCMs_def GCM_def)
  with red_noise_off [OF p] show ?thesis by simp
qed

section \<open>The store\<close>

lemma vec_at_Vec: "h ! a = Vec v \<Longrightarrow> vec_at h a = v"
  by (simp add: vec_at_def)

lemma mat_at_Mat: "h ! a = Mat m \<Longrightarrow> mat_at h a = m"
  by (simp add: mat_at_def)

lemma GCM_store_loop_refines:
  assumes "hist < length h" and "time < length h" and "X < length h"
    and "hist \<noteq> time" and "X \<noteq> hist" and "X \<noteq> time"
    and "h ! hist = Mat H" and "h ! time = Vec T" and "h ! X = Vec Xv"
  shows "length h \<le> length (snd (GCM_store_loop F dt param ns hist time X h))
     \<and> (\<forall>a < length h. a \<noteq> hist \<and> a \<noteq> time \<longrightarrow>
           snd (GCM_store_loop F dt param ns hist time X h) ! a = h ! a)
     \<and> fetch (snd (GCM_store_loop F dt param ns hist time X h))
             (fst (GCM_store_loop F dt param ns hist time X h))
         = GCM_loop F dt param ns H T Xv"
  using assms
proof (induction ns arbitrary: X h H T Xv)
  case Nil
  then show ?case by (simp add: vec_at_Vec mat_at_Mat)
next
  case (Cons n ns)
  let ?Xv' = "euler_step F dt param Xv"
  let ?h1 = "h @ [Vec ?Xv']"
  let ?tv = "fmul dt (Fin (real (n + 1)))"
  let ?h2 = "?h1[hist := Mat (H[n := ?Xv']), time := Vec (T[n := ?tv])]"
  have a: "alloc (Vec (euler_step F dt param (vec_at h X))) h = (length h, ?h1)"
    using Cons.prems by (simp add: alloc_def vec_at_Vec)
  have x': "vec_at ?h1 (length h) = ?Xv'" by (simp add: vec_at_def)
  have h1: "?h1 ! hist = Mat H" "?h1 ! time = Vec T"
    using Cons.prems by (simp_all add: nth_append)
  have w: "set_item (set_row ?h1 hist n ?Xv') time n ?tv = ?h2"
    using Cons.prems h1 by (simp add: set_item_def set_row_def vec_at_def mat_at_def nth_append)
  show ?case
  proof (cases "diverged ?Xv'")
    case (Inl e)
    then show ?thesis using a x' by (simp add: nth_append)
  next
    case (Inr b)
    show ?thesis
    proof (cases b)
      case True
      then show ?thesis using Inr a x' h1 Cons.prems
        by (simp add: nth_append vec_at_def mat_at_def)
    next
      case False
      have step: "GCM_store_loop F dt param (n # ns) hist time X h =
                  GCM_store_loop F dt param ns hist time (length h) ?h2"
        using Inr False a x' w by simp
      have pure: "GCM_loop F dt param (n # ns) H T Xv =
                  GCM_loop F dt param ns (H[n := ?Xv']) (T[n := ?tv]) ?Xv'"
        using Inr False by (simp add: Let_def)
      have IH: "length ?h2 \<le> length (snd (GCM_store_loop F dt param ns hist time (length h) ?h2))
         \<and> (\<forall>a < length ?h2. a \<noteq> hist \<and> a \<noteq> time \<longrightarrow>
               snd (GCM_store_loop F dt param ns hist time (length h) ?h2) ! a = ?h2 ! a)
         \<and> fetch (snd (GCM_store_loop F dt param ns hist time (length h) ?h2))
                 (fst (GCM_store_loop F dt param ns hist time (length h) ?h2))
             = GCM_loop F dt param ns (H[n := ?Xv']) (T[n := ?tv]) ?Xv'"
        using Cons.prems by (intro Cons.IH) (simp_all add: nth_append)
      have old: "?h2 ! a = h ! a" if "a < length h" "a \<noteq> hist" "a \<noteq> time" for a
        using that by (simp add: nth_append)
      show ?thesis unfolding step pure using IH old by auto
    qed
  qed
qed

lemma GCM_store_refines:
  assumes "a < length h" and "h ! a = Vec X0"
  shows "length h \<le> length (snd (GCM_store a F dt nt param h))
     \<and> (\<forall>b < length h. snd (GCM_store a F dt nt param h) ! b = h ! b)
     \<and> fetch (snd (GCM_store a F dt nt param h)) (fst (GCM_store a F dt nt param h))
         = GCM X0 F dt nt param"
proof (cases "nt < 0")
  case True
  then show ?thesis by (simp add: GCM_store_def GCM_def alloc_def nth_append)
next
  case False
  let ?T = "map (\<lambda>n. fmul dt (Fin (real n))) [0..<nat nt]"
  let ?H = "replicate (nat nt) (replicate (length X0) NaN)"
  let ?h3 = "h @ [Vec ?T, Mat ?H, Vec X0]"
  have run: "GCM_store a F dt nt param h =
     GCM_store_loop F dt param [0..<nat nt] (length h + 1) (length h) (length h + 2) ?h3"
    using False assms by (simp add: GCM_store_def alloc_def vec_at_def nth_append)
  have L: "length ?h3 \<le> length (snd (GCM_store_loop F dt param [0..<nat nt] (length h + 1) (length h) (length h + 2) ?h3))
     \<and> (\<forall>b < length ?h3. b \<noteq> length h + 1 \<and> b \<noteq> length h \<longrightarrow>
           snd (GCM_store_loop F dt param [0..<nat nt] (length h + 1) (length h) (length h + 2) ?h3) ! b = ?h3 ! b)
     \<and> fetch (snd (GCM_store_loop F dt param [0..<nat nt] (length h + 1) (length h) (length h + 2) ?h3))
             (fst (GCM_store_loop F dt param [0..<nat nt] (length h + 1) (length h) (length h + 2) ?h3))
         = GCM_loop F dt param [0..<nat nt] ?H ?T X0"
    by (rule GCM_store_loop_refines) (simp_all add: nth_append)
  have old: "?h3 ! b = h ! b" if "b < length h" for b using that by (simp add: nth_append)
  show ?thesis unfolding run using L old False by (auto simp add: GCM_def)
qed


lemma GCMs_store_loop_refines:
  assumes "hist < length h" and "time < length h" and "X < length h" and "ek < length h"
    and "hist \<noteq> time" and "X \<noteq> hist" and "X \<noteq> time" and "ek \<noteq> hist" and "ek \<noteq> time"
    and "h ! hist = Mat H" and "h ! time = Vec T" and "h ! X = Vec Xv" and "h ! ek = Vec ekv"
  shows "length h \<le> length (fst (snd (GCMs_store_loop F dt param stoch phi ns hist time X ek h g)))
     \<and> (\<forall>a < length h. a \<noteq> hist \<and> a \<noteq> time \<longrightarrow>
           fst (snd (GCMs_store_loop F dt param stoch phi ns hist time X ek h g)) ! a = h ! a)
     \<and> fetch (fst (snd (GCMs_store_loop F dt param stoch phi ns hist time X ek h g)))
             (fst (GCMs_store_loop F dt param stoch phi ns hist time X ek h g))
         = fst (GCMs_loop F dt param stoch phi ns H T Xv ekv g)
     \<and> snd (snd (GCMs_store_loop F dt param stoch phi ns hist time X ek h g))
         = snd (GCMs_loop F dt param stoch phi ns H T Xv ekv g)"
  using assms
proof (induction ns arbitrary: X ek h H T Xv ekv g)
  case Nil
  then show ?case by (simp add: vec_at_Vec mat_at_Mat)
next
  case (Cons n ns)
  obtain z g' where r: "randn (length Xv) g = (z, g')" by (cases "randn (length Xv) g")
  let ?ekv' = "red_noise phi stoch ekv z"
  let ?Xv' = "stoch_step F dt param stoch ?ekv' Xv"
  let ?h2 = "h @ [Vec ?ekv', Vec ?Xv']"
  let ?tv = "fmul dt (Fin (real (n + 1)))"
  let ?h3 = "?h2[hist := Mat (H[n := ?Xv']), time := Vec (T[n := ?tv])]"
  have rX: "randn (length (vec_at h X)) g = (z, g')"
    using Cons.prems r by (simp add: vec_at_Vec)
  have a1: "alloc (Vec (red_noise phi stoch (vec_at h ek) z)) h = (length h, h @ [Vec ?ekv'])"
    using Cons.prems by (simp add: alloc_def vec_at_Vec)
  have rd: "vec_at (h @ [Vec ?ekv']) (length h) = ?ekv'" "vec_at (h @ [Vec ?ekv']) X = Xv"
    using Cons.prems by (simp_all add: vec_at_def nth_append)
  have a2: "alloc (Vec ?Xv') (h @ [Vec ?ekv']) = (length h + 1, ?h2)"
    by (simp add: alloc_def)
  have x': "vec_at ?h2 (length h + 1) = ?Xv'" by (simp add: vec_at_def nth_append)
  have h2: "?h2 ! hist = Mat H" "?h2 ! time = Vec T"
    using Cons.prems by (simp_all add: nth_append)
  have w: "set_item (set_row ?h2 hist n ?Xv') time n ?tv = ?h3"
    using Cons.prems h2 by (simp add: set_item_def set_row_def vec_at_def mat_at_def nth_append)
  show ?case
  proof (cases "diverged ?Xv'")
    case (Inl e)
    then show ?thesis using rX r a1 rd a2 x' by (simp add: nth_append)
  next
    case (Inr b)
    show ?thesis
    proof (cases b)
      case True
      then show ?thesis using Inr rX r a1 rd a2 x' h2 Cons.prems
        by (simp add: nth_append vec_at_def mat_at_def)
    next
      case False
      have step: "GCMs_store_loop F dt param stoch phi (n # ns) hist time X ek h g =
                  GCMs_store_loop F dt param stoch phi ns hist time (length h + 1) (length h) ?h3 g'"
        using Inr False rX a1 rd a2 x' w by simp
      have pure: "GCMs_loop F dt param stoch phi (n # ns) H T Xv ekv g =
                  GCMs_loop F dt param stoch phi ns (H[n := ?Xv']) (T[n := ?tv]) ?Xv' ?ekv' g'"
        using Inr False r by (simp add: Let_def)
      have IH: "length ?h3 \<le> length (fst (snd (GCMs_store_loop F dt param stoch phi ns hist time (length h + 1) (length h) ?h3 g')))
         \<and> (\<forall>a < length ?h3. a \<noteq> hist \<and> a \<noteq> time \<longrightarrow>
               fst (snd (GCMs_store_loop F dt param stoch phi ns hist time (length h + 1) (length h) ?h3 g')) ! a = ?h3 ! a)
         \<and> fetch (fst (snd (GCMs_store_loop F dt param stoch phi ns hist time (length h + 1) (length h) ?h3 g')))
                 (fst (GCMs_store_loop F dt param stoch phi ns hist time (length h + 1) (length h) ?h3 g'))
             = fst (GCMs_loop F dt param stoch phi ns (H[n := ?Xv']) (T[n := ?tv]) ?Xv' ?ekv' g')
         \<and> snd (snd (GCMs_store_loop F dt param stoch phi ns hist time (length h + 1) (length h) ?h3 g'))
             = snd (GCMs_loop F dt param stoch phi ns (H[n := ?Xv']) (T[n := ?tv]) ?Xv' ?ekv' g')"
        using Cons.prems by (intro Cons.IH) (simp_all add: nth_append)
      have old: "?h3 ! a = h ! a" if "a < length h" "a \<noteq> hist" "a \<noteq> time" for a
        using that by (simp add: nth_append)
      show ?thesis unfolding step pure using IH old by auto
    qed
  qed
qed

lemma GCMs_store_refines:
  assumes "a < length h" and "h ! a = Vec X0"
  shows "length h \<le> length (fst (snd (GCMs_store a F dt nt param stoch phi h g)))
     \<and> (\<forall>b < length h. fst (snd (GCMs_store a F dt nt param stoch phi h g)) ! b = h ! b)
     \<and> fetch (fst (snd (GCMs_store a F dt nt param stoch phi h g)))
             (fst (GCMs_store a F dt nt param stoch phi h g))
         = fst (GCMs X0 F dt nt param stoch phi g)
     \<and> snd (snd (GCMs_store a F dt nt param stoch phi h g))
         = snd (GCMs X0 F dt nt param stoch phi g)"
proof (cases "nt < 0")
  case True
  then show ?thesis by (simp add: GCMs_store_def GCMs_def alloc_def nth_append)
next
  case False
  let ?T = "map (\<lambda>n. fmul dt (Fin (real n))) [0..<nat nt]"
  let ?H = "replicate (nat nt) (replicate (length X0) NaN)"
  let ?E = "replicate (length X0) (Fin 0)"
  let ?h4 = "h @ [Vec ?T, Mat ?H, Vec X0, Vec ?E]"
  let ?run = "GCMs_store_loop F dt param stoch phi [0..<nat nt] (length h + 1) (length h)
                (length h + 2) (Suc (length h + 2)) ?h4 g"
  have run: "GCMs_store a F dt nt param stoch phi h g = ?run"
    using False assms by (simp add: GCMs_store_def alloc_def vec_at_def nth_append)
  have L: "length ?h4 \<le> length (fst (snd ?run))
     \<and> (\<forall>b < length ?h4. b \<noteq> length h + 1 \<and> b \<noteq> length h \<longrightarrow> fst (snd ?run) ! b = ?h4 ! b)
     \<and> fetch (fst (snd ?run)) (fst ?run)
         = fst (GCMs_loop F dt param stoch phi [0..<nat nt] ?H ?T X0 ?E g)
     \<and> snd (snd ?run) = snd (GCMs_loop F dt param stoch phi [0..<nat nt] ?H ?T X0 ?E g)"
    by (rule GCMs_store_loop_refines) (simp_all add: nth_append)
  have old: "?h4 ! b = h ! b" if "b < length h" for b using that by (simp add: nth_append)
  show ?thesis unfolding run using L old False by (auto simp add: GCMs_def)
qed

lemmas store_defs = GCM_store_def GCMs_store_def alloc_def vec_at_def mat_at_def set_row_def
  set_item_def randn_def red_noise_def stoch_step_def

lemma take_old:
  assumes "length h \<le> length h'" and "\<forall>b < length h. h' ! b = h ! b"
  shows "take (length h) h' = h"
  using assms by (intro nth_equalityI) simp_all

text \<open>
  Claim C7. A call of \<open>GCM\<close> or of \<open>GCMs\<close> on the array \<open>X0\<close> leaves every object that was
  in the store before the call as it was, \<open>X0\<close> among them: the call writes into arrays of
  its own only. What it returns is \<open>GCM\<close> of the contents of \<open>X0\<close> and the other arguments,
  and for \<open>GCMs\<close> of these and the state of the generator; nothing else in the store
  matters.
\<close>

theorem GCM_leaves_X0_unmodified:
  assumes "a < length h" and "h ! a = Vec X0"
  shows "take (length h) (snd (GCM_store a F dt nt param h)) = h
     \<and> snd (GCM_store a F dt nt param h) ! a = Vec X0
     \<and> fetch (snd (GCM_store a F dt nt param h)) (fst (GCM_store a F dt nt param h))
         = GCM X0 F dt nt param
     \<and> take (length h) (fst (snd (GCMs_store a F dt nt param stoch phi h g))) = h
     \<and> fst (snd (GCMs_store a F dt nt param stoch phi h g)) ! a = Vec X0
     \<and> fetch (fst (snd (GCMs_store a F dt nt param stoch phi h g)))
             (fst (GCMs_store a F dt nt param stoch phi h g))
         = fst (GCMs X0 F dt nt param stoch phi g)"
proof -
  note A = GCM_store_refines [OF assms, of F dt nt param]
  note B = GCMs_store_refines [OF assms, of F dt nt param stoch phi g]
  have 1: "take (length h) (snd (GCM_store a F dt nt param h)) = h"
    using A by (intro take_old) simp_all
  have 2: "take (length h) (fst (snd (GCMs_store a F dt nt param stoch phi h g))) = h"
    using B by (intro take_old) simp_all
  from 1 2 A B assms show ?thesis by simp
qed

theorem GCM_leaves_X0_unmodified_witness:
  "(0::nat) < length [Vec [Fin 1, Fin 2, Fin 3, Fin 4]]
   \<and> [Vec [Fin 1, Fin 2, Fin 3, Fin 4]] ! 0 = Vec [Fin 1, Fin 2, Fin 3, Fin 4]
   \<and> GCM_store 0 (Fin 18) (Fin (1 / 100)) 1 [Fin 0] [Vec [Fin 1, Fin 2, Fin 3, Fin 4]] =
       (Inr (2, 1),
        [Vec [Fin 1, Fin 2, Fin 3, Fin 4],
         Vec [Fin (1 / 100)],
         Mat [[Fin (113 / 100), Fin (43 / 20), Fin (321 / 100), Fin (411 / 100)]],
         Vec [Fin 1, Fin 2, Fin 3, Fin 4],
         Vec [Fin (113 / 100), Fin (43 / 20), Fin (321 / 100), Fin (411 / 100)]])
   \<and> GCM [Fin 1, Fin 2, Fin 3, Fin 4] (Fin 18) (Fin (1 / 100)) 1 [Fin 0] =
       Inr ([[Fin (113 / 100), Fin (43 / 20), Fin (321 / 100), Fin (411 / 100)]],
            [Fin (1 / 100)])
   \<and> fst (snd (GCMs_store 0 (Fin 18) (Fin (1 / 100)) 1 [Fin 0] (Fin 1) (Fin 0)
                 [Vec [Fin 1, Fin 2, Fin 3, Fin 4]] (\<lambda>i. 1))) ! 0
       = Vec [Fin 1, Fin 2, Fin 3, Fin 4]"
proof -
  have a: "(0::nat) < length [Vec [Fin 1, Fin 2, Fin 3, Fin 4]]" by simp
  have v: "[Vec [Fin 1, Fin 2, Fin 3, Fin 4]] ! 0 = Vec [Fin 1, Fin 2, Fin 3, Fin 4]" by simp
  have s: "GCM_store 0 (Fin 18) (Fin (1 / 100)) 1 [Fin 0] [Vec [Fin 1, Fin 2, Fin 3, Fin 4]] =
       (Inr (2, 1),
        [Vec [Fin 1, Fin 2, Fin 3, Fin 4],
         Vec [Fin (1 / 100)],
         Mat [[Fin (113 / 100), Fin (43 / 20), Fin (321 / 100), Fin (411 / 100)]],
         Vec [Fin 1, Fin 2, Fin 3, Fin 4],
         Vec [Fin (113 / 100), Fin (43 / 20), Fin (321 / 100), Fin (411 / 100)]])"
    by (simp add: store_defs eval_defs)
  from GCM_leaves_X0_unmodified [OF a v, of "Fin 18" "Fin (1 / 100)" 1 "[Fin 0]" "Fin 1" "Fin 0"
      "\<lambda>i. 1"] a v s
  show ?thesis by (simp add: mat_at_def vec_at_def)
qed

text \<open>
  Claim C5. Two runs on initial states of the same contents, with the same \<open>F\<close>, \<open>dt\<close>,
  \<open>nt\<close> and \<open>param\<close>, return \<open>hist\<close> and \<open>time\<close> arrays of the same contents (or raise the
  same exception), whatever else the two stores hold; two runs of \<open>GCMs\<close> that also start
  from the same state of the generator do so too, and leave the generator in the same state.
\<close>

theorem GCM_deterministic:
  assumes "a1 < length h1" and "h1 ! a1 = Vec X0"
    and "a2 < length h2" and "h2 ! a2 = Vec X0"
  shows "fetch (snd (GCM_store a1 F dt nt param h1)) (fst (GCM_store a1 F dt nt param h1))
       = fetch (snd (GCM_store a2 F dt nt param h2)) (fst (GCM_store a2 F dt nt param h2))
     \<and> fetch (fst (snd (GCMs_store a1 F dt nt param stoch phi h1 g)))
             (fst (GCMs_store a1 F dt nt param stoch phi h1 g))
       = fetch (fst (snd (GCMs_store a2 F dt nt param stoch phi h2 g)))
               (fst (GCMs_store a2 F dt nt param stoch phi h2 g))
     \<and> snd (snd (GCMs_store a1 F dt nt param stoch phi h1 g))
       = snd (snd (GCMs_store a2 F dt nt param stoch phi h2 g))"
  using GCM_store_refines [OF assms(1,2), of F dt nt param]
    GCM_store_refines [OF assms(3,4), of F dt nt param]
    GCMs_store_refines [OF assms(1,2), of F dt nt param stoch phi g]
    GCMs_store_refines [OF assms(3,4), of F dt nt param stoch phi g]
  by simp

theorem GCM_deterministic_witness:
  "(0::nat) < length [Vec [Fin 1, Fin 2, Fin 3, Fin 4]]
   \<and> [Vec [Fin 1, Fin 2, Fin 3, Fin 4]] ! 0 = Vec [Fin 1, Fin 2, Fin 3, Fin 4]
   \<and> (1::nat) < length [Vec [Fin 9], Vec [Fin 1, Fin 2, Fin 3, Fin 4]]
   \<and> [Vec [Fin 9], Vec [Fin 1, Fin 2, Fin 3, Fin 4]] ! 1 = Vec [Fin 1, Fin 2, Fin 3, Fin 4]
   \<and> fetch (snd (GCM_store 0 (Fin 18) (Fin (1 / 100)) 1 [Fin 0]
                   [Vec [Fin 1, Fin 2, Fin 3, Fin 4]]))
            (fst (GCM_store 0 (Fin 18) (Fin (1 / 100)) 1 [Fin 0]
                   [Vec [Fin 1, Fin 2, Fin 3, Fin 4]]))
       = Inr ([[Fin (113 / 100), Fin (43 / 20), Fin (321 / 100), Fin (411 / 100)]],
              [Fin (1 / 100)])
   \<and> fetch (snd (GCM_store 1 (Fin 18) (Fin (1 / 100)) 1 [Fin 0]
                   [Vec [Fin 9], Vec [Fin 1, Fin 2, Fin 3, Fin 4]]))
            (fst (GCM_store 1 (Fin 18) (Fin (1 / 100)) 1 [Fin 0]
                   [Vec [Fin 9], Vec [Fin 1, Fin 2, Fin 3, Fin 4]]))
       = Inr ([[Fin (113 / 100), Fin (43 / 20), Fin (321 / 100), Fin (411 / 100)]],
              [Fin (1 / 100)])"
proof -
  have a: "(0::nat) < length [Vec [Fin 1, Fin 2, Fin 3, Fin 4]]" by simp
  have v: "[Vec [Fin 1, Fin 2, Fin 3, Fin 4]] ! 0 = Vec [Fin 1, Fin 2, Fin 3, Fin 4]" by simp
  have a2: "(1::nat) < length [Vec [Fin 9], Vec [Fin 1, Fin 2, Fin 3, Fin 4]]" by simp
  have v2: "[Vec [Fin 9], Vec [Fin 1, Fin 2, Fin 3, Fin 4]] ! 1 = Vec [Fin 1, Fin 2, Fin 3, Fin 4]"
    by simp
  have s: "fetch (snd (GCM_store 0 (Fin 18) (Fin (1 / 100)) 1 [Fin 0]
                   [Vec [Fin 1, Fin 2, Fin 3, Fin 4]]))
            (fst (GCM_store 0 (Fin 18) (Fin (1 / 100)) 1 [Fin 0]
                   [Vec [Fin 1, Fin 2, Fin 3, Fin 4]]))
       = Inr ([[Fin (113 / 100), Fin (43 / 20), Fin (321 / 100), Fin (411 / 100)]],
              [Fin (1 / 100)])"
    by (simp add: store_defs eval_defs)
  from GCM_deterministic [OF a v a2 v2, of "Fin 18" "Fin (1 / 100)" 1 "[Fin 0]" "Fin 1" "Fin 0"
      "\<lambda>i. 1"] a v a2 v2 s
  show ?thesis by simp
qed

end
